theory Spec2Isabelle
  imports Complex_Main "HOL-Library.Word" "HOL-Library.Log_Nat"
begin

section \<open>GreenCare plant-leaf analyser: the client logic of \<open>src/index.tsx\<close>\<close>

text \<open>
  The application keeps a list of uploaded items and a selection (React state of the
  component \<open>App\<close>). Each accepted file starts a pipeline: \<open>compressImage\<close>, then
  \<open>analyzeItem\<close>, whose outcome is merged into the list by the item's id. The browser
  and the remote service are not part of the source; what they answer is an input of the
  model (the record \<open>browser\<close>, the function \<open>service\<close>, the ids that \<open>Math.random\<close>
  gives).
\<close>

subsection \<open>Strings as JavaScript uses them\<close>

text \<open>\<open>s.startsWith(p)\<close>, \<open>s.includes(t)\<close>, \<open>s.slice(0, n)\<close>, \<open>s.split(c)\<close> and reading
  an array at an index that may be out of range (\<open>undefined\<close> is \<open>None\<close>).\<close>

definition startsWith :: "string \<Rightarrow> string \<Rightarrow> bool" where
  "startsWith s p = (take (length p) s = p)"

fun includes_str :: "string \<Rightarrow> string \<Rightarrow> bool" where
  "includes_str [] t = (t = [])"
| "includes_str (c # cs) t = (startsWith (c # cs) t \<or> includes_str cs t)"

definition slice0 :: "nat \<Rightarrow> string \<Rightarrow> string" where
  "slice0 n s = take n s"

fun split :: "char \<Rightarrow> string \<Rightarrow> string list" where
  "split sep [] = [[]]"
| "split sep (c # cs) =
     (if c = sep then [] # split sep cs
      else (case split sep cs of [] \<Rightarrow> [[c]] | p # ps \<Rightarrow> (c # p) # ps))"

definition nth_opt :: "'a list \<Rightarrow> nat \<Rightarrow> 'a option" where
  "nth_opt xs i = (if i < length xs then Some (xs ! i) else None)"

subsection \<open>The analysis result (types \<open>TreatmentStep\<close>, \<open>Issue\<close>, \<open>AnalysisResult\<close>)\<close>

record TreatmentStep =
  step :: int
  action :: string
  timing :: string
  details :: string

datatype severity = Low | Medium | High | None_severity

record Issue =
  name :: string
  severity :: severity
  confidence :: string
  explanation :: string
  treatmentPlan :: "TreatmentStep list"

record AnalysisResult =
  overallStatus :: string
  issues :: "Issue list"
  safetyTips :: "string list"
  followUp :: string

subsection \<open>Files and what the browser does with them\<close>

type_synonym byte = "8 word"

record File =
  name :: string
  type :: string
  content :: "byte list"

text \<open>The base64 alphabet of RFC 4648, which \<open>FileReader.readAsDataURL\<close> writes after
  the header \<open>data:<type>;base64,\<close>.\<close>

definition b64alphabet :: string where
  "b64alphabet = ''ABCDEFGHIJKLMNOPQRSTUVWXYZabcdefghijklmnopqrstuvwxyz0123456789+/''"

definition b64char :: "nat \<Rightarrow> char" where
  "b64char n = b64alphabet ! (n mod 64)"

fun base64 :: "byte list \<Rightarrow> string" where
  "base64 [] = []"
| "base64 [a] =
     (let n = unat a * 65536
      in [b64char (n div 262144), b64char (n div 4096), CHR ''='', CHR ''=''])"
| "base64 [a, b] =
     (let n = unat a * 65536 + unat b * 256
      in [b64char (n div 262144), b64char (n div 4096), b64char (n div 64), CHR ''=''])"
| "base64 (a # b # c # rest) =
     (let n = unat a * 65536 + unat b * 256 + unat c
      in [b64char (n div 262144), b64char (n div 4096), b64char (n div 64), b64char n]
         @ base64 rest)"

definition readAsDataURL :: "File \<Rightarrow> string" where
  "readAsDataURL f = ''data:'' @ type f @ '';base64,'' @ base64 (content f)"

text \<open>The canvas a picture is drawn on. Its \<open>width\<close> and \<open>height\<close> attributes are
  unsigned integers: assigning a number to them drops its fraction.\<close>

record canvas =
  width :: nat
  height :: nat

text \<open>Everything \<open>compressImage\<close> asks the browser: whether the \<open>FileReader\<close> loads the
  file or fires \<open>onerror\<close>, whether the \<open>Image\<close> decodes (and then its width and height)
  or fires \<open>onerror\<close>, whether the canvas gives a 2d context, and the data URL that
  \<open>canvas.toDataURL('image/jpeg', 0.7)\<close> returns for the picture drawn on the canvas.
  The \<open>width\<close> and \<open>height\<close> of an \<open>Image\<close> are unsigned 32-bit integers.\<close>

record browser =
  loads :: "File \<Rightarrow> bool"
  decodes :: "File \<Rightarrow> (32 word \<times> 32 word) option"
  context2d :: bool
  toDataURL :: "File \<Rightarrow> canvas \<Rightarrow> string"

datatype error = ReadError | ImageError | NoCanvasContext

record payload =
  data :: "string option"
  mimeType :: string

subsection \<open>The image normalizer: \<open>compressImage\<close>\<close>

text \<open>JavaScript numbers are IEEE 754 binary64. A product or quotient is the exact
  value rounded to the nearest number with a 53-bit significand, a tie going to the even
  significand; \<open>exponent x\<close> is the \<open>e\<close> with \<open>2 ^ e \<le> x < 2 ^ (e + 1)\<close>, and the
  exponent used is never below \<open>-1022\<close>. Numbers are kept as rationals: infinities and
  NaN are not modelled, and the resize logic, which divides 1024 by a side above 1024 and
  multiplies by a side below \<open>2 ^ 32\<close>, never produces them.\<close>

definition round_even :: "rat \<Rightarrow> int" where
  "round_even m =
     (let f = \<lfloor>m\<rfloor>; r = m - of_int f
      in if r < 1 / 2 then f else if 1 / 2 < r then f + 1 else if even f then f else f + 1)"

definition exponent :: "rat \<Rightarrow> int" where
  "exponent x =
     (case quotient_of x of
        (p, q) \<Rightarrow> (let k = bitlen p - bitlen q in if 2 powi k \<le> x then k else k - 1))"

definition round64 :: "rat \<Rightarrow> rat" where
  "round64 x =
     (if x = 0 then 0
      else (let e = max (exponent \<bar>x\<bar>) (- 1022); u = 2 powi (e - 52)
            in of_int (round_even (x / u)) * u))"

definition div64 :: "rat \<Rightarrow> rat \<Rightarrow> rat" where
  "div64 a b = round64 (a / b)"

definition mul64 :: "rat \<Rightarrow> rat \<Rightarrow> rat" where
  "mul64 a b = round64 (a * b)"

text \<open>The "Resize logic" of \<open>img.onload\<close> on the variables \<open>width\<close> and \<open>height\<close>:
  \<open>height *= MAX_WIDTH / width\<close> is one rounded quotient and one rounded product.\<close>

definition MAX_WIDTH :: rat where
  "MAX_WIDTH = 1024"

definition MAX_HEIGHT :: rat where
  "MAX_HEIGHT = 1024"

definition resize :: "rat \<Rightarrow> rat \<Rightarrow> rat \<times> rat" where
  "resize w h =
     (if w > h then
        (if w > MAX_WIDTH then (MAX_WIDTH, mul64 h (div64 MAX_WIDTH w)) else (w, h))
      else
        (if h > MAX_HEIGHT then (mul64 w (div64 MAX_HEIGHT h), MAX_HEIGHT) else (w, h)))"

definition sized :: "rat \<times> rat \<Rightarrow> canvas" where
  "sized d = \<lparr>width = nat \<lfloor>fst d\<rfloor>, height = nat \<lfloor>snd d\<rfloor>\<rparr>"

definition compressImage :: "browser \<Rightarrow> File \<Rightarrow> error + payload" where
  "compressImage br f =
     (if \<not> startsWith (type f) ''image/'' then
        (if loads br f
         then Inr \<lparr>data = nth_opt (split CHR '','' (readAsDataURL f)) 1, mimeType = type f\<rparr>
         else Inl ReadError)
      else if \<not> loads br f then Inl ReadError
      else (case decodes br f of
              None \<Rightarrow> Inl ImageError
            | Some (iw, ih) \<Rightarrow>
                (let cv = sized (resize (of_nat (unat iw)) (of_nat (unat ih)))
                 in if \<not> context2d br then Inl NoCanvasContext
                    else Inr \<lparr>data = nth_opt (split CHR '','' (toDataURL br f cv)) 1,
                              mimeType = ''image/jpeg''\<rparr>)))"

subsection \<open>The analysis client: \<open>analyzeItem\<close>\<close>

text \<open>What \<open>ai.models.generateContent\<close> answers: the promise is rejected with an error
  \<open>err\<close> (kept: \<open>err.message\<close>, \<open>None\<close> when undefined), or resolved with a response
  (kept: \<open>response.text\<close>, \<open>None\<close> when undefined). The service sees the payload.
  \<open>JSON.parse\<close> either throws a \<open>SyntaxError\<close> (kept: its message) or yields the value
  stored as \<open>result\<close>; the request carries the response schema of \<open>AnalysisResult\<close>.\<close>

datatype response = Rejected "string option" | Resolved "string option"

type_synonym service = "string option \<Rightarrow> string \<Rightarrow> response"

type_synonym json_parse = "string \<Rightarrow> string + AnalysisResult"

text \<open>The \<open>try\<close> block: the message of what it throws, or \<open>resultData\<close>.\<close>

definition tryBlock :: "json_parse \<Rightarrow> response \<Rightarrow> string option + AnalysisResult" where
  "tryBlock parse r =
     (case r of
        Rejected m \<Rightarrow> Inl m
      | Resolved t \<Rightarrow>
          (case t of
             None \<Rightarrow> Inl (Some ''No response from AI'')
           | Some text \<Rightarrow>
               if text = [] then Inl (Some ''No response from AI'')
               else (case parse text of
                       Inl m \<Rightarrow> Inl (Some m)
                     | Inr resultData \<Rightarrow> Inr resultData)))"

text \<open>The \<open>catch\<close> block's \<open>errorMessage\<close>, from \<open>err.message\<close>.\<close>

definition errorMessage :: "string option \<Rightarrow> string" where
  "errorMessage m =
     (case m of
        None \<Rightarrow> ''Failed to analyze. Please try again.''
      | Some msg \<Rightarrow>
          if msg = [] then ''Failed to analyze. Please try again.''
          else if includes_str msg ''403''
            then ''Permission Denied: Please check API Key or Network.''
          else if includes_str msg ''503''
            then ''Service temporarily unavailable. Retrying might help.''
          else ''Error: '' @ slice0 50 msg @ ''...'')"

subsection \<open>The item store\<close>

record FileItem =
  id_of :: string
  file_of :: File
  previewUrl :: string
  mimeType :: string
  loading :: bool
  result :: "AnalysisResult option"
  error :: "string option"

definition analyzeItem ::
  "json_parse \<Rightarrow> service \<Rightarrow> string \<Rightarrow> string option \<Rightarrow> string \<Rightarrow> FileItem list \<Rightarrow> FileItem list" where
  "analyzeItem parse ai i base64Data mt prev =
     (case tryBlock parse (ai base64Data mt) of
        Inr resultData \<Rightarrow>
          map (\<lambda>item. if id_of item = i
                      then item\<lparr>loading := False, result := Some resultData\<rparr>
                      else item) prev
      | Inl m \<Rightarrow>
          map (\<lambda>item. if id_of item = i
                      then item\<lparr>loading := False, error := Some (errorMessage m)\<rparr>
                      else item) prev)"

text \<open>The state of \<open>App\<close>: the two \<open>useState\<close> cells, the notices shown by \<open>alert\<close>, and
  the pipelines started by \<open>processFiles\<close> that have not yet written back (each closure
  holds its \<open>item\<close>).\<close>

record app =
  items :: "FileItem list"
  selectedId :: "string option"
  alerts :: "string list"
  pipelines :: "FileItem list"

definition initial :: app where
  "initial = \<lparr>items = [], selectedId = None, alerts = [], pipelines = []\<rparr>"

definition accepted :: "File \<Rightarrow> bool" where
  "accepted f = (\<not> (\<not> startsWith (type f) ''image/'' \<and> type f \<noteq> ''application/pdf''))"

definition notice :: "File \<Rightarrow> string" where
  "notice f = ''File '' @ name f @ '' is not supported. Please use JPG, PNG, or PDF.''"

text \<open>The \<open>files.forEach\<close> of \<open>processFiles\<close>, on \<open>newItems\<close> and the alerts. \<open>random k\<close> is
  the id that the \<open>k\<close>-th evaluation of \<open>Math.random().toString(36).substring(7)\<close> gives.\<close>

fun forEach_file ::
  "(nat \<Rightarrow> string) \<Rightarrow> (File \<Rightarrow> string) \<Rightarrow> File list \<Rightarrow> FileItem list \<times> string list
   \<Rightarrow> FileItem list \<times> string list" where
  "forEach_file random createObjectURL [] acc = acc"
| "forEach_file random createObjectURL (f # fs) (newItems, shown) =
     (if \<not> startsWith (type f) ''image/'' \<and> type f \<noteq> ''application/pdf''
      then forEach_file random createObjectURL fs (newItems, shown @ [notice f])
      else forEach_file random createObjectURL fs
             (newItems @ [\<lparr>id_of = random (length newItems), file_of = f,
                            previewUrl = createObjectURL f, mimeType = type f,
                            loading = True, result = None, error = None\<rparr>], shown))"

definition processFiles ::
  "(nat \<Rightarrow> string) \<Rightarrow> (File \<Rightarrow> string) \<Rightarrow> File list \<Rightarrow> app \<Rightarrow> app" where
  "processFiles random createObjectURL files s =
     (case forEach_file random createObjectURL files ([], alerts s) of
        (newItems, shown) \<Rightarrow>
          \<lparr>items = items s @ newItems,
           selectedId = (if length newItems > 0 then Some (id_of (newItems ! 0))
                         else selectedId s),
           alerts = shown,
           pipelines = pipelines s @ newItems\<rparr>)"

text \<open>One pipeline running to its end: the body of \<open>newItems.forEach(async (item) => ...)\<close>.\<close>

definition settle ::
  "json_parse \<Rightarrow> browser \<Rightarrow> service \<Rightarrow> FileItem \<Rightarrow> FileItem list \<Rightarrow> FileItem list" where
  "settle parse br ai item prev =
     (case compressImage br (file_of item) of
        Inr p \<Rightarrow> analyzeItem parse ai (id_of item) (data p) (payload.mimeType p) prev
      | Inl e \<Rightarrow>
          map (\<lambda>i. if id_of i = id_of item
                   then i\<lparr>loading := False, error := Some ''Failed to process image.''\<rparr>
                   else i) prev)"

definition removeItem :: "string \<Rightarrow> app \<Rightarrow> app" where
  "removeItem i s =
     (let newItems = filter (\<lambda>item. id_of item \<noteq> i) (items s)
      in s\<lparr>items := newItems,
            selectedId := (if selectedId s = Some i
                           then (if length newItems > 0 then Some (id_of (newItems ! 0))
                                 else None)
                           else selectedId s)\<rparr>)"


subsection \<open>The steps of the application\<close>

text \<open>An event is a call of \<open>processFiles\<close> (with what \<open>Math.random\<close> and
  \<open>URL.createObjectURL\<close> give during it), the end of the \<open>k\<close>-th pending pipeline (with
  what the browser and the service answer it), a click on an item's remove button, or a
  click that sets the selection.\<close>

datatype event =
    ProcessFiles "nat \<Rightarrow> string" "File \<Rightarrow> string" "File list"
  | Settle nat browser service
  | RemoveItem string
  | Select "string option"

fun fire :: "json_parse \<Rightarrow> event \<Rightarrow> app \<Rightarrow> app option" where
  "fire parse (ProcessFiles random createObjectURL files) s =
     Some (processFiles random createObjectURL files s)"
| "fire parse (Settle k br ai) s =
     (if k < length (pipelines s)
      then Some (s\<lparr>items := settle parse br ai (pipelines s ! k) (items s),
                   pipelines := take k (pipelines s) @ drop (Suc k) (pipelines s)\<rparr>)
      else None)"
| "fire parse (RemoveItem i) s = Some (removeItem i s)"
| "fire parse (Select x) s = Some (s\<lparr>selectedId := x\<rparr>)"

fun run :: "json_parse \<Rightarrow> event list \<Rightarrow> app \<Rightarrow> app option" where
  "run parse [] s = Some s"
| "run parse (e # es) s =
     (case fire parse e s of None \<Rightarrow> None | Some s' \<Rightarrow> run parse es s')"

text \<open>The ids drawn by a call of \<open>processFiles\<close> are fresh when they differ from each
  other and from the ids of the items and of the pending pipelines.\<close>

definition drawn :: "(nat \<Rightarrow> string) \<Rightarrow> (File \<Rightarrow> string) \<Rightarrow> File list \<Rightarrow> string list" where
  "drawn random createObjectURL files =
     map id_of (fst (forEach_file random createObjectURL files ([], [])))"

fun fresh :: "event \<Rightarrow> app \<Rightarrow> bool" where
  "fresh (ProcessFiles random createObjectURL files) s =
     (distinct (drawn random createObjectURL files) \<and>
      list_all (\<lambda>i. i \<notin> set (map id_of (items s)) \<and> i \<notin> set (map id_of (pipelines s)))
        (drawn random createObjectURL files))"
| "fresh e s = True"

fun fresh_run :: "json_parse \<Rightarrow> event list \<Rightarrow> app \<Rightarrow> bool" where
  "fresh_run parse [] s = True"
| "fresh_run parse (e # es) s =
     (fresh e s \<and> (case fire parse e s of None \<Rightarrow> False | Some s' \<Rightarrow> fresh_run parse es s'))"

subsection \<open>Closed forms and predicates used in the statements\<close>

text \<open>The item that \<open>processFiles\<close> builds for an accepted file, and the list of items
  it builds for a batch: the \<open>k\<close>-th accepted file gets the \<open>k\<close>-th id.\<close>

definition mkItem :: "string \<Rightarrow> string \<Rightarrow> File \<Rightarrow> FileItem" where
  "mkItem i u f = \<lparr>id_of = i, file_of = f, previewUrl = u, mimeType = type f,
                   loading = True, result = None, error = None\<rparr>"

definition created ::
  "(nat \<Rightarrow> string) \<Rightarrow> (File \<Rightarrow> string) \<Rightarrow> nat \<Rightarrow> File list \<Rightarrow> FileItem list" where
  "created random createObjectURL n fs =
     map (\<lambda>(k, f). mkItem (random k) (createObjectURL f) f)
       (enumerate n (filter accepted fs))"

text \<open>The two updates that the source writes inline as \<open>prev.map(...)\<close>.\<close>

definition setError :: "string \<Rightarrow> string \<Rightarrow> FileItem list \<Rightarrow> FileItem list" where
  "setError i msg prev =
     map (\<lambda>item. if id_of item = i then item\<lparr>loading := False, error := Some msg\<rparr>
                 else item) prev"

definition setResult :: "string \<Rightarrow> AnalysisResult \<Rightarrow> FileItem list \<Rightarrow> FileItem list" where
  "setResult i r prev =
     map (\<lambda>item. if id_of item = i then item\<lparr>loading := False, result := Some r\<rparr>
                 else item) prev"

definition exactly_one :: "FileItem \<Rightarrow> bool" where
  "exactly_one it =
     ((loading it \<and> error it = None \<and> result it = None) \<or>
      (\<not> loading it \<and> error it \<noteq> None \<and> result it = None) \<or>
      (\<not> loading it \<and> error it = None \<and> result it \<noteq> None))"

definition terminal :: "FileItem \<Rightarrow> bool" where
  "terminal it = (result it \<noteq> None \<or> error it \<noteq> None)"

text \<open>Two invariants of the steps. The first needs nothing of the ids; the second holds
  while the ids drawn are fresh.\<close>

definition loading_clean :: "app \<Rightarrow> bool" where
  "loading_clean s =
     list_all (\<lambda>it. loading it \<longrightarrow> error it = None \<and> result it = None) (items s)"

definition pending_ok :: "app \<Rightarrow> bool" where
  "pending_ok s =
     (distinct (map id_of (pipelines s)) \<and>
      list_all (\<lambda>it. exactly_one it \<and>
                     (\<not> loading it \<longrightarrow> id_of it \<notin> set (map id_of (pipelines s))))
        (items s))"

subsection \<open>Concrete inputs\<close>

definition leaf_png :: File where
  "leaf_png = \<lparr>name = ''leaf.png'', type = ''image/png'', content = [137, 80, 78, 71]\<rparr>"

definition scan_pdf :: File where
  "scan_pdf = \<lparr>name = ''scan.pdf'', type = ''application/pdf'', content = [77, 97, 110]\<rparr>"

definition notes_txt :: File where
  "notes_txt = \<lparr>name = ''notes.txt'', type = ''text/plain'', content = [104, 105]\<rparr>"

definition browser_ok :: browser where
  "browser_ok = \<lparr>loads = (\<lambda>f. True), decodes = (\<lambda>f. Some (2048, 1000)), context2d = True,
                  toDataURL = (\<lambda>f cv. ''data:image/jpeg;base64,QUJD'')\<rparr>"

definition healthy :: AnalysisResult where
  "healthy = \<lparr>overallStatus = ''Healthy'', issues = [], safetyTips = [], followUp = []\<rparr>"

definition parse_healthy :: json_parse where
  "parse_healthy t = (if t = ''{}'' then Inr healthy else Inl ''Unexpected token'')"

definition ai_healthy :: service where
  "ai_healthy d mt = Resolved (Some ''{}'')"

definition ai_down :: service where
  "ai_down d mt = Rejected (Some ''503 Service Unavailable'')"

definition ai_silent :: service where
  "ai_silent d mt = Rejected None"

definition ai_both :: service where
  "ai_both d mt = Rejected (Some ''503 after 403'')"

definition blob_url :: "File \<Rightarrow> string" where
  "blob_url f = ''blob:'' @ name f"

definition two_ids :: "nat \<Rightarrow> string" where
  "two_ids k = (if k = 0 then ''k3x9f2'' else ''p0q81z'')"

definition same_id :: "nat \<Rightarrow> string" where
  "same_id k = ''k3x9f2''"

definition item_a :: FileItem where
  "item_a = mkItem ''k3x9f2'' ''blob:leaf.png'' leaf_png"

definition item_b :: FileItem where
  "item_b = mkItem ''p0q81z'' ''blob:scan.pdf'' scan_pdf"

text \<open>Two runs of three events each: a batch of two files whose ids differ, and a batch
  of two files for which \<open>Math.random\<close> gives the same id twice; the first pipeline ends
  in a result, the second in a failure of the service.\<close>

definition unavailable :: string where
  "unavailable = ''Service temporarily unavailable. Retrying might help.''"

definition item_a_done :: FileItem where
  "item_a_done = item_a\<lparr>loading := False, result := Some healthy\<rparr>"

definition item_b_failed :: FileItem where
  "item_b_failed = item_b\<lparr>loading := False, error := Some unavailable\<rparr>"

definition item_a_both :: FileItem where
  "item_a_both = item_a\<lparr>loading := False, result := Some healthy, error := Some unavailable\<rparr>"

definition start_ok :: "event list" where
  "start_ok = [ProcessFiles two_ids blob_url [leaf_png, scan_pdf],
               Settle 0 browser_ok ai_healthy]"

definition mid_ok :: app where
  "mid_ok = \<lparr>items = [item_a_done, item_b], selectedId = Some ''k3x9f2'', alerts = [],
             pipelines = [item_b]\<rparr>"

definition final_ok :: app where
  "final_ok = \<lparr>items = [item_a_done, item_b_failed], selectedId = Some ''k3x9f2'',
               alerts = [], pipelines = []\<rparr>"

definition start_clash :: "event list" where
  "start_clash = [ProcessFiles same_id blob_url [leaf_png, leaf_png],
                  Settle 0 browser_ok ai_healthy]"

definition mid_clash :: app where
  "mid_clash = \<lparr>items = [item_a_done, item_a_done], selectedId = Some ''k3x9f2'',
                alerts = [], pipelines = [item_a]\<rparr>"

definition final_clash :: app where
  "final_clash = \<lparr>items = [item_a_both, item_a_both], selectedId = Some ''k3x9f2'',
                  alerts = [], pipelines = []\<rparr>"

section \<open>Strings and base64\<close>

lemma includes_str_iff: "includes_str s t \<longleftrightarrow> (\<exists>a b. s = a @ t @ b)"
proof (induction s)
  case Nil
  then show ?case by auto
next
  case (Cons c cs)
  have "startsWith (c # cs) t \<longleftrightarrow> (\<exists>b. c # cs = t @ b)"
    unfolding startsWith_def by (metis append_eq_conv_conj)
  moreover have "(\<exists>a b. c # cs = a @ t @ b) \<longleftrightarrow>
      (\<exists>b. c # cs = t @ b) \<or> (\<exists>a b. cs = a @ t @ b)"
  proof
    assume "\<exists>a b. c # cs = a @ t @ b"
    then obtain a b where ab: "c # cs = a @ t @ b" by blast
    show "(\<exists>b. c # cs = t @ b) \<or> (\<exists>a b. cs = a @ t @ b)"
    proof (cases a)
      case Nil
      with ab show ?thesis by auto
    next
      case (Cons x a')
      with ab have "cs = a' @ t @ b" by simp
      then show ?thesis by blast
    qed
  next
    assume "(\<exists>b. c # cs = t @ b) \<or> (\<exists>a b. cs = a @ t @ b)"
    then show "\<exists>a b. c # cs = a @ t @ b"
    proof
      assume "\<exists>b. c # cs = t @ b"
      then show ?thesis by (metis append_Nil)
    next
      assume "\<exists>a b. cs = a @ t @ b"
      then obtain a b where "cs = a @ t @ b" by blast
      then have "c # cs = (c # a) @ t @ b" by simp
      then show ?thesis by blast
    qed
  qed
  ultimately show ?case using Cons.IH by simp
qed

lemma includes_nonempty: "includes_str msg (c # t) \<Longrightarrow> msg \<noteq> []"
  by (cases msg) auto

lemma split_no_sep: "sep \<notin> set s \<Longrightarrow> split sep s = [s]"
  by (induction s) auto

lemma split_append_sep: "sep \<notin> set a \<Longrightarrow> split sep (a @ sep # b) = a # split sep b"
  by (induction a) auto

lemma b64alphabet_no_comma: "CHR '','' \<notin> set b64alphabet"
  by (simp add: b64alphabet_def)

lemma b64char_no_comma: "b64char n \<noteq> CHR '',''"
proof -
  have "n mod 64 < length b64alphabet" by (simp add: b64alphabet_def)
  then have "b64char n \<in> set b64alphabet" unfolding b64char_def by (rule nth_mem)
  with b64alphabet_no_comma show ?thesis by metis
qed

lemma base64_no_comma: "CHR '','' \<notin> set (base64 bs)"
  by (induction bs rule: base64.induct)
    (simp_all add: Let_def b64char_no_comma b64char_no_comma [symmetric])

lemma base64_Man: "base64 [77, 97, 110] = ''TWFu''" "base64 [77, 97] = ''TWE=''"
  "base64 [77] = ''TQ==''"
  by (simp_all add: Let_def b64char_def b64alphabet_def)

lemma pdf_header_split:
  "split CHR '','' (''data:application/pdf;base64,'' @ b) =
     ''data:application/pdf;base64'' # split CHR '','' b"
  using split_append_sep [of "CHR '',''" "''data:application/pdf;base64''" b] by simp

section \<open>Binary64 rounding and the resize arithmetic\<close>
















section \<open>The image normalizer\<close>



text \<open>
  C2. For an accepted file whose type does not start with \<open>image/\<close> (so it is
  \<open>application/pdf\<close>) and that the reader loads, \<open>compressImage\<close> resolves with the
  base64 text of the file's bytes as \<open>data\<close> and the file's own type as \<open>mimeType\<close>.
\<close>

theorem compressImage_document_passthrough:
  assumes "accepted f" and "\<not> startsWith (type f) ''image/''" and "loads br f"
  shows "compressImage br f = Inr \<lparr>data = Some (base64 (content f)), mimeType = type f\<rparr>"
proof -
  from assms have t: "type f = ''application/pdf''" by (simp add: accepted_def)
  have "split CHR '','' (readAsDataURL f) = [''data:application/pdf;base64'', base64 (content f)]"
    unfolding readAsDataURL_def t
    using pdf_header_split [of "base64 (content f)"]
      split_no_sep [OF base64_no_comma, of "content f"]
    by simp
  then have "nth_opt (split CHR '','' (readAsDataURL f)) 1 = Some (base64 (content f))"
    by (simp add: nth_opt_def)
  with assms show ?thesis by (simp add: compressImage_def)
qed

theorem compressImage_document_passthrough_witness:
  "compressImage browser_ok scan_pdf = Inr \<lparr>data = Some ''TWFu'', mimeType = ''application/pdf''\<rparr>"
proof -
  have a: "accepted scan_pdf" by (simp add: accepted_def scan_pdf_def)
  have n: "\<not> startsWith (type scan_pdf) ''image/''" by (simp add: startsWith_def scan_pdf_def)
  have l: "loads browser_ok scan_pdf" by (simp add: browser_ok_def)
  have b: "base64 (content scan_pdf) = ''TWFu''"
    by (simp add: scan_pdf_def Let_def b64char_def b64alphabet_def)
  from compressImage_document_passthrough [OF a n l] b show ?thesis
    by (simp add: scan_pdf_def)
qed

section \<open>The analysis client\<close>

lemma analyzeItem_eq:
  "analyzeItem parse ai i d mt prev =
     (case tryBlock parse (ai d mt) of
        Inr r \<Rightarrow> setResult i r prev
      | Inl m \<Rightarrow> setError i (errorMessage m) prev)"
  by (simp add: analyzeItem_def setError_def setResult_def split: sum.splits)

lemma settle_eq:
  "settle parse br ai item prev =
     (case compressImage br (file_of item) of
        Inr p \<Rightarrow> analyzeItem parse ai (id_of item) (data p) (payload.mimeType p) prev
      | Inl e \<Rightarrow> setError (id_of item) ''Failed to process image.'' prev)"
  by (simp add: settle_def setError_def split: sum.splits)

lemma errorMessage_none:
  "errorMessage None = ''Failed to analyze. Please try again.''"
  "errorMessage (Some []) = ''Failed to analyze. Please try again.''"
  by (simp_all add: errorMessage_def)

lemma errorMessage_403:
  "includes_str msg ''403'' \<Longrightarrow>
     errorMessage (Some msg) = ''Permission Denied: Please check API Key or Network.''"
  using includes_nonempty [of msg] by (auto simp add: errorMessage_def)

lemma errorMessage_503:
  "\<not> includes_str msg ''403'' \<Longrightarrow> includes_str msg ''503'' \<Longrightarrow>
     errorMessage (Some msg) = ''Service temporarily unavailable. Retrying might help.''"
  using includes_nonempty [of msg] by (auto simp add: errorMessage_def)

lemma errorMessage_other:
  "msg \<noteq> [] \<Longrightarrow> \<not> includes_str msg ''403'' \<Longrightarrow> \<not> includes_str msg ''503'' \<Longrightarrow>
     errorMessage (Some msg) = ''Error: '' @ take 50 msg @ ''...''"
  by (simp add: errorMessage_def slice0_def)

lemma tryBlock_no_text:
  "r = Resolved None \<or> r = Resolved (Some []) \<Longrightarrow>
     tryBlock parse r = Inl (Some ''No response from AI'')"
  by (auto simp: tryBlock_def)

lemma no_response_message:
  "errorMessage (Some ''No response from AI'') = ''Error: No response from AI...''"
  by (simp add: errorMessage_def slice0_def startsWith_def)

text \<open>
  C3 (as amended). When the \<open>try\<close> block of \<open>analyzeItem\<close> fails with an error whose
  message is \<open>m\<close>, the item's \<open>error\<close> becomes \<open>errorMessage m\<close>, where: an absent or empty
  response text gives the message \<open>No response from AI\<close>, stored through the excerpt path
  as \<open>Error: No response from AI...\<close>; an error with no message, or an empty one, gives
  the default \<open>Failed to analyze. Please try again.\<close>; otherwise a message containing
  \<open>403\<close> gives the permission-denied text; else one containing \<open>503\<close> gives the
  temporarily-unavailable text; else \<open>Error: \<close>, the first 50 characters of the message and
  \<open>...\<close>.
\<close>

theorem analyzeItem_failure_message:
  assumes "tryBlock parse (ai d mt) = Inl m"
  shows "analyzeItem parse ai i d mt prev = setError i (errorMessage m) prev \<and>
    (ai d mt = Resolved None \<or> ai d mt = Resolved (Some []) \<longrightarrow>
       errorMessage m = ''Error: No response from AI...'') \<and>
    (m = None \<or> m = Some [] \<longrightarrow> errorMessage m = ''Failed to analyze. Please try again.'') \<and>
    (\<forall>msg. m = Some msg \<and> (\<exists>a b. msg = a @ ''403'' @ b) \<longrightarrow>
       errorMessage m = ''Permission Denied: Please check API Key or Network.'') \<and>
    (\<forall>msg. m = Some msg \<and> \<not> (\<exists>a b. msg = a @ ''403'' @ b) \<and> (\<exists>a b. msg = a @ ''503'' @ b) \<longrightarrow>
       errorMessage m = ''Service temporarily unavailable. Retrying might help.'') \<and>
    (\<forall>msg. m = Some msg \<and> msg \<noteq> [] \<and> \<not> (\<exists>a b. msg = a @ ''403'' @ b) \<and>
           \<not> (\<exists>a b. msg = a @ ''503'' @ b) \<longrightarrow>
       errorMessage m = ''Error: '' @ take 50 msg @ ''...'')"
proof (intro conjI)
  show "analyzeItem parse ai i d mt prev = setError i (errorMessage m) prev"
    using assms by (simp add: analyzeItem_eq)
  show "ai d mt = Resolved None \<or> ai d mt = Resolved (Some []) \<longrightarrow>
       errorMessage m = ''Error: No response from AI...''"
  proof
    assume "ai d mt = Resolved None \<or> ai d mt = Resolved (Some [])"
    from tryBlock_no_text [OF this, of parse] assms
    have "m = Some ''No response from AI''" by simp
    then show "errorMessage m = ''Error: No response from AI...''"
      by (simp only: no_response_message)
  qed
  show "m = None \<or> m = Some [] \<longrightarrow> errorMessage m = ''Failed to analyze. Please try again.''"
    using errorMessage_none by auto
  show "\<forall>msg. m = Some msg \<and> (\<exists>a b. msg = a @ ''403'' @ b) \<longrightarrow>
       errorMessage m = ''Permission Denied: Please check API Key or Network.''"
    using errorMessage_403 by (simp only: includes_str_iff [symmetric]) blast
  show "\<forall>msg. m = Some msg \<and> \<not> (\<exists>a b. msg = a @ ''403'' @ b) \<and> (\<exists>a b. msg = a @ ''503'' @ b) \<longrightarrow>
       errorMessage m = ''Service temporarily unavailable. Retrying might help.''"
    using errorMessage_503 by (simp only: includes_str_iff [symmetric]) blast
  show "\<forall>msg. m = Some msg \<and> msg \<noteq> [] \<and> \<not> (\<exists>a b. msg = a @ ''403'' @ b) \<and>
           \<not> (\<exists>a b. msg = a @ ''503'' @ b) \<longrightarrow>
       errorMessage m = ''Error: '' @ take 50 msg @ ''...''"
    using errorMessage_other by (simp only: includes_str_iff [symmetric]) blast
qed

theorem analyzeItem_failure_message_witness:
  "tryBlock parse_healthy (ai_down (Some ''QUJD'') ''image/jpeg'') =
     Inl (Some ''503 Service Unavailable'') \<and>
   analyzeItem parse_healthy ai_down ''k3x9f2'' (Some ''QUJD'') ''image/jpeg'' [item_a, item_b] =
     [item_a\<lparr>loading := False,
             error := Some ''Service temporarily unavailable. Retrying might help.''\<rparr>, item_b]"
proof -
  have t: "tryBlock parse_healthy (ai_down (Some ''QUJD'') ''image/jpeg'') =
      Inl (Some ''503 Service Unavailable'')"
    by (simp add: tryBlock_def ai_down_def)
  have n4: "\<not> (\<exists>a b. ''503 Service Unavailable'' = a @ ''403'' @ b)"
    by (simp only: includes_str_iff [symmetric]) (simp add: startsWith_def)
  have y5: "\<exists>a b. ''503 Service Unavailable'' = a @ ''503'' @ b"
    by (simp only: includes_str_iff [symmetric]) (simp add: startsWith_def)
  from analyzeItem_failure_message [where parse = parse_healthy and ai = ai_down
      and d = "Some ''QUJD''" and mt = "''image/jpeg''" and i = "''k3x9f2''"
      and prev = "[item_a, item_b]", OF t] n4 y5
  have "analyzeItem parse_healthy ai_down ''k3x9f2'' (Some ''QUJD'') ''image/jpeg'' [item_a, item_b] =
      setError ''k3x9f2'' ''Service temporarily unavailable. Retrying might help.'' [item_a, item_b]"
    by simp
  with t show ?thesis by (simp add: setError_def item_a_def item_b_def mkItem_def)
qed

theorem analyzeItem_no_message_counterexample:
  "tryBlock parse_healthy (ai_silent (Some ''QUJD'') ''image/jpeg'') = Inl None \<and>
   analyzeItem parse_healthy ai_silent ''k3x9f2'' (Some ''QUJD'') ''image/jpeg'' [item_a] =
     [item_a\<lparr>loading := False, error := Some ''Failed to analyze. Please try again.''\<rparr>] \<and>
   \<not> startsWith ''Failed to analyze. Please try again.'' ''Error: '' \<and>
   ''Failed to analyze. Please try again.'' \<noteq> ''Permission Denied: Please check API Key or Network.'' \<and>
   ''Failed to analyze. Please try again.'' \<noteq> ''Service temporarily unavailable. Retrying might help.''"
  by (simp add: tryBlock_def ai_silent_def analyzeItem_def errorMessage_def item_a_def
      mkItem_def startsWith_def)

text \<open>
  C10. When the error caught by \<open>analyzeItem\<close> has a message containing both \<open>403\<close> and
  \<open>503\<close>, the stored error is the permission-denied text: the \<open>403\<close> test comes first.
\<close>

theorem analyzeItem_403_before_503:
  assumes "tryBlock parse (ai d mt) = Inl (Some msg)"
    and "\<exists>a b. msg = a @ ''403'' @ b" and "\<exists>a b. msg = a @ ''503'' @ b"
  shows "errorMessage (Some msg) = ''Permission Denied: Please check API Key or Network.'' \<and>
    analyzeItem parse ai i d mt prev =
      setError i ''Permission Denied: Please check API Key or Network.'' prev"
proof -
  from assms(2) have "includes_str msg ''403''" by (simp only: includes_str_iff)
  then have "errorMessage (Some msg) = ''Permission Denied: Please check API Key or Network.''"
    by (rule errorMessage_403)
  then show ?thesis using assms(1) by (simp add: analyzeItem_eq)
qed

theorem analyzeItem_403_before_503_witness:
  "analyzeItem parse_healthy ai_both ''k3x9f2'' (Some ''QUJD'') ''image/jpeg'' [item_a] =
     [item_a\<lparr>loading := False,
             error := Some ''Permission Denied: Please check API Key or Network.''\<rparr>]"
proof -
  have t: "tryBlock parse_healthy (ai_both (Some ''QUJD'') ''image/jpeg'') =
      Inl (Some ''503 after 403'')"
    by (simp add: tryBlock_def ai_both_def)
  have y4: "\<exists>a b. ''503 after 403'' = a @ ''403'' @ b"
    by (simp only: includes_str_iff [symmetric]) (simp add: startsWith_def)
  have y5: "\<exists>a b. ''503 after 403'' = a @ ''503'' @ b"
    by (simp only: includes_str_iff [symmetric]) (simp add: startsWith_def)
  from analyzeItem_403_before_503 [where parse = parse_healthy and ai = ai_both
      and d = "Some ''QUJD''" and mt = "''image/jpeg''" and i = "''k3x9f2''"
      and prev = "[item_a]", OF t y4 y5]
  show ?thesis by (simp add: setError_def item_a_def mkItem_def)
qed

section \<open>The item store\<close>

lemma forEach_file_eq:
  "forEach_file random url fs (acc, shown) =
     (acc @ created random url (length acc) fs,
      shown @ map notice (filter (\<lambda>f. \<not> accepted f) fs))"
proof (induction fs arbitrary: acc shown)
  case Nil
  then show ?case by (simp add: created_def)
next
  case (Cons f fs)
  show ?case
  proof (cases "accepted f")
    case True
    then have "forEach_file random url (f # fs) (acc, shown) =
        forEach_file random url fs (acc @ [mkItem (random (length acc)) (url f) f], shown)"
      by (auto simp: accepted_def mkItem_def)
    also have "\<dots> = ((acc @ [mkItem (random (length acc)) (url f) f]) @
          created random url (Suc (length acc)) fs,
        shown @ map notice (filter (\<lambda>f. \<not> accepted f) fs))"
      using Cons.IH [of "acc @ [mkItem (random (length acc)) (url f) f]" shown] by simp
    finally show ?thesis using True by (simp add: created_def)
  next
    case False
    then have "forEach_file random url (f # fs) (acc, shown) =
        forEach_file random url fs (acc, shown @ [notice f])"
      by (simp add: accepted_def)
    then show ?thesis using False Cons.IH [of acc "shown @ [notice f]"]
      by (simp add: created_def)
  qed
qed

lemma created_props:
  "map file_of (created random url n fs) = filter accepted fs"
  "length (created random url n fs) = length (filter accepted fs)"
  "list_all (\<lambda>it. loading it \<and> result it = None \<and> error it = None) (created random url n fs)"
proof -
  show "map file_of (created random url n fs) = filter accepted fs"
    unfolding created_def by (induction "filter accepted fs" arbitrary: n fs)
      (auto simp: mkItem_def enumerate_eq_zip map_eq_conv intro: nth_equalityI)
  show "length (created random url n fs) = length (filter accepted fs)"
    by (simp add: created_def)
  show "list_all (\<lambda>it. loading it \<and> result it = None \<and> error it = None)
      (created random url n fs)"
    by (auto simp: created_def list_all_iff mkItem_def)
qed

lemma processFiles_eq:
  "processFiles random url files s =
     \<lparr>items = items s @ created random url 0 files,
      selectedId = (if filter accepted files = [] then selectedId s else Some (random 0)),
      alerts = alerts s @ map notice (filter (\<lambda>f. \<not> accepted f) files),
      pipelines = pipelines s @ created random url 0 files\<rparr>"
proof -
  have sel: "filter accepted files \<noteq> [] \<Longrightarrow> id_of (created random url 0 files ! 0) = random 0"
  proof -
    assume "filter accepted files \<noteq> []"
    then obtain f rest where "filter accepted files = f # rest"
      by (cases "filter accepted files") auto
    then show ?thesis by (simp add: created_def mkItem_def)
  qed
  have len: "length (created random url 0 files) = length (filter accepted files)"
    by (simp add: created_def)
  show ?thesis
    unfolding processFiles_def forEach_file_eq using sel len by auto
qed

lemma drawn_created: "drawn random url files = map id_of (created random url 0 files)"
  by (simp add: drawn_def forEach_file_eq)

lemma setError_absent: "i \<notin> id_of ` set prev \<Longrightarrow> setError i msg prev = prev"
  unfolding setError_def by (induction prev) auto

lemma setResult_absent: "i \<notin> id_of ` set prev \<Longrightarrow> setResult i r prev = prev"
  unfolding setResult_def by (induction prev) auto


lemma created_example:
  "created two_ids blob_url 0 [leaf_png, notes_txt, scan_pdf] = [item_a, item_b]"
  "created same_id blob_url 0 [leaf_png, leaf_png] = [item_a, item_a]"
  "filter accepted [leaf_png, notes_txt, scan_pdf] = [leaf_png, scan_pdf]"
  "filter (\<lambda>f. \<not> accepted f) [leaf_png, notes_txt, scan_pdf] = [notes_txt]"
  by (simp_all add: created_def accepted_def startsWith_def leaf_png_def notes_txt_def
      scan_pdf_def item_a_def item_b_def mkItem_def two_ids_def same_id_def blob_url_def)

text \<open>
  C4. \<open>removeItem i\<close> keeps exactly the items whose id is not \<open>i\<close>, in order; if \<open>i\<close> was
  the selected id, the selection becomes the id of the first item that remains, or empty
  when none remains; otherwise the selection is unchanged.
\<close>

theorem removeItem_selection:
  "items (removeItem i s) = filter (\<lambda>item. id_of item \<noteq> i) (items s) \<and>
   i \<notin> id_of ` set (items (removeItem i s)) \<and>
   (selectedId s = Some i \<longrightarrow>
      selectedId (removeItem i s) =
        (case items (removeItem i s) of [] \<Rightarrow> None | x # rest \<Rightarrow> Some (id_of x))) \<and>
   (selectedId s \<noteq> Some i \<longrightarrow> selectedId (removeItem i s) = selectedId s)"
  by (auto simp: removeItem_def Let_def split: list.splits)

theorem removeItem_selection_witness:
  "removeItem ''k3x9f2''
     \<lparr>items = [item_a, item_b], selectedId = Some ''k3x9f2'', alerts = [], pipelines = []\<rparr> =
     \<lparr>items = [item_b], selectedId = Some ''p0q81z'', alerts = [], pipelines = []\<rparr> \<and>
   selectedId (removeItem ''k3x9f2''
     \<lparr>items = [item_a], selectedId = Some ''k3x9f2'', alerts = [], pipelines = []\<rparr>) = None \<and>
   selectedId (removeItem ''p0q81z''
     \<lparr>items = [item_a, item_b], selectedId = Some ''k3x9f2'', alerts = [], pipelines = []\<rparr>) =
     Some ''k3x9f2''"
  using removeItem_selection [of "''k3x9f2''"
      "\<lparr>items = [item_a, item_b], selectedId = Some ''k3x9f2'', alerts = [], pipelines = []\<rparr>"]
    removeItem_selection [of "''k3x9f2''"
      "\<lparr>items = [item_a], selectedId = Some ''k3x9f2'', alerts = [], pipelines = []\<rparr>"]
    removeItem_selection [of "''p0q81z''"
      "\<lparr>items = [item_a, item_b], selectedId = Some ''k3x9f2'', alerts = [], pipelines = []\<rparr>"]
  by (simp add: removeItem_def item_a_def item_b_def mkItem_def)

text \<open>
  C5. \<open>processFiles\<close> appends to the items one new item per accepted file, in the order
  of the files and for no other file, each with \<open>loading\<close> true and neither result nor
  error; and it shows one notice per file that is not accepted, each containing that
  file's name.
\<close>

theorem processFiles_counts:
  "items (processFiles random url files s) = items s @ created random url 0 files \<and>
   map file_of (created random url 0 files) = filter accepted files \<and>
   length (created random url 0 files) = length (filter accepted files) \<and>
   list_all (\<lambda>it. loading it \<and> result it = None \<and> error it = None)
     (created random url 0 files) \<and>
   alerts (processFiles random url files s) =
     alerts s @ map notice (filter (\<lambda>f. \<not> accepted f) files) \<and>
   length (alerts (processFiles random url files s)) =
     length (alerts s) + length (filter (\<lambda>f. \<not> accepted f) files) \<and>
   list_all (\<lambda>f. \<exists>a b. notice f = a @ name f @ b) files"
proof -
  have "\<And>f. notice f = ''File '' @ name f @ '' is not supported. Please use JPG, PNG, or PDF.''"
    by (simp add: notice_def)
  then have "list_all (\<lambda>f. \<exists>a b. notice f = a @ name f @ b) files"
    unfolding list_all_iff by blast
  then show ?thesis
    by (simp add: processFiles_eq created_props)
qed

theorem processFiles_counts_witness:
  "items (processFiles two_ids blob_url [leaf_png, notes_txt, scan_pdf] initial) =
     [item_a, item_b] \<and>
   alerts (processFiles two_ids blob_url [leaf_png, notes_txt, scan_pdf] initial) =
     [''File notes.txt is not supported. Please use JPG, PNG, or PDF.'']"
proof -
  note t = processFiles_counts [of two_ids blob_url "[leaf_png, notes_txt, scan_pdf]" initial]
  from t have i: "items (processFiles two_ids blob_url [leaf_png, notes_txt, scan_pdf] initial) =
      items initial @ created two_ids blob_url 0 [leaf_png, notes_txt, scan_pdf]"
    by (rule conjunct1)
  from t have a: "alerts (processFiles two_ids blob_url [leaf_png, notes_txt, scan_pdf] initial) =
      alerts initial @ map notice (filter (\<lambda>f. \<not> accepted f) [leaf_png, notes_txt, scan_pdf])"
    by blast
  show ?thesis unfolding i a created_example
    by (simp add: initial_def notice_def notes_txt_def)
qed

text \<open>
  C6. For an id that no item of the collection has, the result merge and the error merge
  of \<open>analyzeItem\<close>, and the whole end of a pipeline for that id (the compression-error
  handler included), return the collection as it was.
\<close>

theorem merge_absent_id:
  assumes "i \<notin> id_of ` set prev"
  shows "analyzeItem parse ai i d mt prev = prev \<and>
         (id_of item = i \<longrightarrow> settle parse br ai item prev = prev) \<and>
         setResult i r prev = prev \<and> setError i msg prev = prev"
  using assms
  by (auto simp: analyzeItem_eq settle_eq setError_absent setResult_absent split: sum.splits)

theorem merge_absent_id_witness:
  "analyzeItem parse_healthy ai_healthy ''k3x9f2'' (Some ''QUJD'') ''image/jpeg'' [item_b] = [item_b] \<and>
   analyzeItem parse_healthy ai_down ''k3x9f2'' (Some ''QUJD'') ''image/jpeg'' [item_b] = [item_b] \<and>
   settle parse_healthy (browser_ok\<lparr>context2d := False\<rparr>) ai_healthy item_a [item_b] = [item_b]"
proof -
  have a: "''k3x9f2'' \<notin> id_of ` set [item_b]" by (simp add: item_b_def mkItem_def)
  have i: "id_of item_a = ''k3x9f2''" by (simp add: item_a_def mkItem_def)
  from merge_absent_id [OF a, of parse_healthy ai_healthy "Some ''QUJD''" "''image/jpeg''" item_a]
    merge_absent_id [OF a, of parse_healthy ai_down "Some ''QUJD''" "''image/jpeg''" item_a]
    i show ?thesis by simp
qed



section \<open>The steps: what every run keeps\<close>

lemma setError_set:
  "it' \<in> set (setError i msg prev) \<Longrightarrow>
     it' \<in> set prev \<and> id_of it' \<noteq> i \<or>
     (\<exists>it \<in> set prev. id_of it = i \<and> it' = it\<lparr>loading := False, error := Some msg\<rparr>)"
  by (auto simp: setError_def)

lemma setResult_set:
  "it' \<in> set (setResult i r prev) \<Longrightarrow>
     it' \<in> set prev \<and> id_of it' \<noteq> i \<or>
     (\<exists>it \<in> set prev. id_of it = i \<and> it' = it\<lparr>loading := False, result := Some r\<rparr>)"
  by (auto simp: setResult_def)

lemma settle_cases:
  "(\<exists>msg. settle parse br ai item prev = setError (id_of item) msg prev) \<or>
   (\<exists>r. settle parse br ai item prev = setResult (id_of item) r prev)"
  by (auto simp: settle_eq analyzeItem_eq split: sum.splits)

lemma settle_set:
  assumes "it' \<in> set (settle parse br ai item prev)"
  shows "it' \<in> set prev \<and> id_of it' \<noteq> id_of item \<or>
     (\<exists>it \<in> set prev. id_of it = id_of item \<and> id_of it' = id_of item \<and> \<not> loading it' \<and>
        ((\<exists>msg. it' = it\<lparr>loading := False, error := Some msg\<rparr>) \<or>
         (\<exists>r. it' = it\<lparr>loading := False, result := Some r\<rparr>)))"
  using settle_cases [of parse br ai item prev]
proof (elim disjE exE)
  fix msg assume "settle parse br ai item prev = setError (id_of item) msg prev"
  with assms have "it' \<in> set (setError (id_of item) msg prev)" by simp
  from setError_set [OF this] show ?thesis by fastforce
next
  fix r assume "settle parse br ai item prev = setResult (id_of item) r prev"
  with assms have "it' \<in> set (setResult (id_of item) r prev)" by simp
  from setResult_set [OF this] show ?thesis by fastforce
qed

lemma settle_keeps:
  "it \<in> set prev \<Longrightarrow> id_of it \<noteq> id_of item \<Longrightarrow> it \<in> set (settle parse br ai item prev)"
  using settle_cases [of parse br ai item prev]
  by (auto simp: setError_def setResult_def)

lemma loading_clean_fire:
  assumes "loading_clean s" and "fire parse e s = Some s'"
  shows "loading_clean s'"
proof (cases e)
  case (ProcessFiles random url files)
  with assms show ?thesis
    using created_props(3) [of random url 0 files]
    by (auto simp: loading_clean_def processFiles_eq list_all_iff)
next
  case (Settle k br ai)
  with assms have s': "items s' = settle parse br ai (pipelines s ! k) (items s)"
    by (auto split: if_splits)
  show ?thesis
    unfolding loading_clean_def list_all_iff s'
  proof
    fix it' assume "it' \<in> set (settle parse br ai (pipelines s ! k) (items s))"
    from settle_set [OF this] assms(1)
    show "loading it' \<longrightarrow> error it' = None \<and> result it' = None"
      by (auto simp: loading_clean_def list_all_iff)
  qed
next
  case (RemoveItem i)
  with assms show ?thesis by (auto simp: loading_clean_def removeItem_def Let_def list_all_iff)
next
  case (Select x)
  with assms show ?thesis by (auto simp: loading_clean_def list_all_iff)
qed

lemma loading_clean_run:
  "loading_clean s \<Longrightarrow> run parse evs s = Some s' \<Longrightarrow> loading_clean s'"
proof (induction evs arbitrary: s)
  case Nil
  then show ?case by simp
next
  case (Cons e evs)
  then obtain s1 where f: "fire parse e s = Some s1" and r: "run parse evs s1 = Some s'"
    by (auto split: option.splits)
  from loading_clean_fire [OF Cons.prems(1) f] r Cons.IH show ?case by blast
qed

lemma distinct_remove_nth:
  assumes "distinct (map f xs)" and "k < length xs"
  shows "distinct (map f (take k xs @ drop (Suc k) xs))"
    and "f (xs ! k) \<notin> f ` set (take k xs @ drop (Suc k) xs)"
proof -
  have xs: "xs = take k xs @ xs ! k # drop (Suc k) xs"
    using assms(2) by (simp add: id_take_nth_drop)
  have "distinct (map f (take k xs @ xs ! k # drop (Suc k) xs))"
    using assms(1) xs by simp
  then show "distinct (map f (take k xs @ drop (Suc k) xs))"
    and "f (xs ! k) \<notin> f ` set (take k xs @ drop (Suc k) xs)"
    by auto
qed

lemma set_remove_nth_subset: "set (take k xs @ drop (Suc k) xs) \<subseteq> set xs"
  using set_take_subset set_drop_subset by fastforce

lemma pending_ok_fire:
  assumes inv: "pending_ok s" and fr: "fresh e s" and f: "fire parse e s = Some s'"
  shows "pending_ok s'"
proof (cases e)
  case (ProcessFiles random url files)
  let ?new = "created random url 0 files"
  from fr ProcessFiles have d: "distinct (map id_of ?new)"
    and dis: "\<forall>i \<in> set (map id_of ?new).
        i \<notin> set (map id_of (items s)) \<and> i \<notin> set (map id_of (pipelines s))"
    by (simp_all add: drawn_created list_all_iff)
  have new: "\<forall>it \<in> set ?new. exactly_one it \<and> loading it"
    using created_props(3) [of random url 0 files] by (auto simp: list_all_iff exactly_one_def)
  from f ProcessFiles have s': "s' = processFiles random url files s" by simp
  have "set (map id_of (pipelines s)) \<inter> set (map id_of ?new) = {}"
    using dis by blast
  with inv d have "distinct (map id_of (pipelines s @ ?new))"
    by (simp add: pending_ok_def)
  moreover have "\<forall>it \<in> set (items s @ ?new). exactly_one it \<and>
      (\<not> loading it \<longrightarrow> id_of it \<notin> set (map id_of (pipelines s @ ?new)))"
  proof
    fix it assume "it \<in> set (items s @ ?new)"
    then consider "it \<in> set (items s)" | "it \<in> set ?new" by auto
    then show "exactly_one it \<and>
        (\<not> loading it \<longrightarrow> id_of it \<notin> set (map id_of (pipelines s @ ?new)))"
    proof cases
      case 1
      with inv have e: "exactly_one it"
        and p: "\<not> loading it \<longrightarrow> id_of it \<notin> set (map id_of (pipelines s))"
        by (auto simp: pending_ok_def list_all_iff)
      from 1 have "id_of it \<in> set (map id_of (items s))" by simp
      with dis have "id_of it \<notin> set (map id_of ?new)" by blast
      with e p show ?thesis by simp
    next
      case 2
      with new show ?thesis by simp
    qed
  qed
  ultimately show ?thesis
    unfolding s' pending_ok_def list_all_iff by (simp add: processFiles_eq)
next
  case (Settle k br ai)
  with f have k: "k < length (pipelines s)"
    and its: "items s' = settle parse br ai (pipelines s ! k) (items s)"
    and ps: "pipelines s' = take k (pipelines s) @ drop (Suc k) (pipelines s)"
    by (auto split: if_splits)
  from inv have dp: "distinct (map id_of (pipelines s))" by (simp add: pending_ok_def)
  note rm = distinct_remove_nth [OF dp k]
  have kin: "id_of (pipelines s ! k) \<in> set (map id_of (pipelines s))" using k by simp
  have "\<forall>it' \<in> set (items s'). exactly_one it' \<and>
      (\<not> loading it' \<longrightarrow> id_of it' \<notin> set (map id_of (pipelines s')))"
  proof
    fix it' assume "it' \<in> set (items s')"
    then have "it' \<in> set (settle parse br ai (pipelines s ! k) (items s))" by (simp add: its)
    from settle_set [OF this]
    show "exactly_one it' \<and> (\<not> loading it' \<longrightarrow> id_of it' \<notin> set (map id_of (pipelines s')))"
    proof
      assume a: "it' \<in> set (items s) \<and> id_of it' \<noteq> id_of (pipelines s ! k)"
      with inv have "exactly_one it'" and
        "\<not> loading it' \<longrightarrow> id_of it' \<notin> set (map id_of (pipelines s))"
        by (auto simp: pending_ok_def list_all_iff)
      then show ?thesis using set_remove_nth_subset [of k "pipelines s"] ps by auto
    next
      assume "\<exists>it \<in> set (items s). id_of it = id_of (pipelines s ! k) \<and>
          id_of it' = id_of (pipelines s ! k) \<and> \<not> loading it' \<and>
          ((\<exists>msg. it' = it\<lparr>loading := False, error := Some msg\<rparr>) \<or>
           (\<exists>r. it' = it\<lparr>loading := False, result := Some r\<rparr>))"
      then obtain it where it: "it \<in> set (items s)" "id_of it = id_of (pipelines s ! k)"
        "id_of it' = id_of (pipelines s ! k)"
        and upd: "(\<exists>msg. it' = it\<lparr>loading := False, error := Some msg\<rparr>) \<or>
           (\<exists>r. it' = it\<lparr>loading := False, result := Some r\<rparr>)" by blast
      from inv it(1) have "exactly_one it"
        and "\<not> loading it \<longrightarrow> id_of it \<notin> set (map id_of (pipelines s))"
        by (auto simp: pending_ok_def list_all_iff)
      with it(2) kin have "loading it \<and> error it = None \<and> result it = None"
        by (auto simp: exactly_one_def)
      with upd have "exactly_one it'" by (auto simp: exactly_one_def)
      moreover have "id_of it' \<notin> set (map id_of (pipelines s'))"
        using rm(2) it(3) ps by auto
      ultimately show ?thesis by simp
    qed
  qed
  with rm(1) ps show ?thesis by (simp add: pending_ok_def list_all_iff)
next
  case (RemoveItem i)
  with f have "s' = removeItem i s" by simp
  with inv show ?thesis by (auto simp: pending_ok_def removeItem_def Let_def list_all_iff)
next
  case (Select x)
  with f inv show ?thesis by (auto simp: pending_ok_def list_all_iff)
qed

lemma pending_ok_run:
  "pending_ok s \<Longrightarrow> fresh_run parse evs s \<Longrightarrow> run parse evs s = Some s' \<Longrightarrow> pending_ok s'"
proof (induction evs arbitrary: s)
  case Nil
  then show ?case by simp
next
  case (Cons e evs)
  then obtain s1 where f: "fire parse e s = Some s1" and r: "run parse evs s1 = Some s'"
    and fr: "fresh e s" "fresh_run parse evs s1"
    by (auto split: option.splits)
  from pending_ok_fire [OF Cons.prems(1) fr(1) f] fr(2) r Cons.IH show ?case by blast
qed

lemma initial_invariants: "pending_ok initial" "loading_clean initial"
  by (simp_all add: pending_ok_def loading_clean_def initial_def)

subsection \<open>The two example runs\<close>

lemma compress_ok: "\<exists>p. compressImage browser_ok f = Inr p"
  by (simp add: compressImage_def browser_ok_def)

lemma settle_healthy:
  "settle parse_healthy browser_ok ai_healthy item prev = setResult (id_of item) healthy prev"
proof -
  obtain p where "compressImage browser_ok (file_of item) = Inr p" using compress_ok by blast
  then show ?thesis
    by (simp add: settle_eq analyzeItem_eq tryBlock_def ai_healthy_def parse_healthy_def)
qed

lemma settle_down:
  "settle parse_healthy browser_ok ai_down item prev = setError (id_of item) unavailable prev"
proof -
  obtain p where "compressImage browser_ok (file_of item) = Inr p" using compress_ok by blast
  then show ?thesis
    by (simp add: settle_eq analyzeItem_eq tryBlock_def ai_down_def errorMessage_def
        startsWith_def unavailable_def)
qed

lemma created_two:
  "created two_ids blob_url 0 [leaf_png, scan_pdf] = [item_a, item_b]"
  by (simp add: created_def accepted_def startsWith_def leaf_png_def scan_pdf_def
      item_a_def item_b_def mkItem_def two_ids_def blob_url_def)

lemma accepted_examples: "accepted leaf_png" "accepted scan_pdf" "\<not> accepted notes_txt"
  by (simp_all add: accepted_def startsWith_def leaf_png_def scan_pdf_def notes_txt_def)

lemma ids_ab: "id_of item_a = ''k3x9f2''" "id_of item_b = ''p0q81z''"
  by (simp_all add: item_a_def item_b_def mkItem_def)

lemma run_start_ok: "run parse_healthy start_ok initial = Some mid_ok"
  by (simp add: start_ok_def mid_ok_def initial_def processFiles_eq created_two settle_healthy
      setResult_def ids_ab item_a_done_def accepted_examples two_ids_def)

lemma fire_mid_ok: "fire parse_healthy (Settle 0 browser_ok ai_down) mid_ok = Some final_ok"
  by (simp add: mid_ok_def final_ok_def settle_down setError_def ids_ab item_a_done_def
      item_b_failed_def)

lemma fresh_start_ok: "fresh_run parse_healthy start_ok initial"
  by (simp add: start_ok_def initial_def drawn_created created_two ids_ab processFiles_eq)

lemma run_start_clash: "run parse_healthy start_clash initial = Some mid_clash"
  by (simp add: start_clash_def mid_clash_def initial_def processFiles_eq created_example
      settle_healthy setResult_def ids_ab item_a_done_def accepted_examples same_id_def)

lemma fire_mid_clash:
  "fire parse_healthy (Settle 0 browser_ok ai_down) mid_clash = Some final_clash"
  by (simp add: mid_clash_def final_clash_def settle_down setError_def ids_ab item_a_done_def
      item_a_both_def)

lemma run_append:
  "run parse evs s = Some s1 \<Longrightarrow> run parse (evs @ evs') s = run parse evs' s1"
  by (induction evs arbitrary: s) (auto split: option.splits)

lemma fresh_run_append:
  "run parse evs s = Some s1 \<Longrightarrow>
     fresh_run parse (evs @ evs') s = (fresh_run parse evs s \<and> fresh_run parse evs' s1)"
  by (induction evs arbitrary: s) (auto split: option.splits)

section \<open>The life of an item\<close>

text \<open>
  C7 (as amended). In every state that a run of events reaches from the empty store, an
  item with \<open>loading\<close> true has neither error nor result; and when every call of
  \<open>processFiles\<close> in the run drew ids that differ from each other and from the ids of
  the items and pending pipelines of that moment, exactly one of: \<open>loading\<close> is true,
  \<open>error\<close> is set, \<open>result\<close> is set, holds for every item.
\<close>

theorem exactly_one_reachable:
  assumes "run parse evs initial = Some s"
  shows "(\<forall>it \<in> set (items s). loading it \<longrightarrow> error it = None \<and> result it = None) \<and>
         (fresh_run parse evs initial \<longrightarrow> (\<forall>it \<in> set (items s). exactly_one it))"
proof -
  have "loading_clean s" using loading_clean_run [OF initial_invariants(2) assms] .
  moreover have "fresh_run parse evs initial \<Longrightarrow> pending_ok s"
    using pending_ok_run [OF initial_invariants(1) _ assms] .
  ultimately show ?thesis by (auto simp: loading_clean_def pending_ok_def list_all_iff)
qed

theorem exactly_one_reachable_witness:
  "run parse_healthy (start_ok @ [Settle 0 browser_ok ai_down]) initial = Some final_ok \<and>
   fresh_run parse_healthy (start_ok @ [Settle 0 browser_ok ai_down]) initial \<and>
   exactly_one item_a_done \<and> exactly_one item_b_failed"
proof -
  have r: "run parse_healthy (start_ok @ [Settle 0 browser_ok ai_down]) initial = Some final_ok"
    by (simp add: run_append [OF run_start_ok] fire_mid_ok del: fire.simps)
  have f: "fresh_run parse_healthy (start_ok @ [Settle 0 browser_ok ai_down]) initial"
    by (simp add: fresh_run_append [OF run_start_ok] fresh_start_ok fire_mid_ok del: fire.simps)
  from exactly_one_reachable [OF r] f have "\<forall>it \<in> set (items final_ok). exactly_one it"
    by blast
  then have "exactly_one item_a_done \<and> exactly_one item_b_failed"
    by (simp add: final_ok_def)
  with r f show ?thesis by simp
qed

theorem same_id_both_set_counterexample:
  "run parse_healthy (start_clash @ [Settle 0 browser_ok ai_down]) initial = Some final_clash \<and>
   item_a_both \<in> set (items final_clash) \<and>
   \<not> loading item_a_both \<and> error item_a_both \<noteq> None \<and> result item_a_both \<noteq> None \<and>
   \<not> exactly_one item_a_both"
  by (simp add: run_append [OF run_start_clash] fire_mid_clash final_clash_def item_a_both_def
      exactly_one_def del: fire.simps)

text \<open>
  C8 (as amended). In a state reached by a run whose ids were fresh, an item that has its
  result or its error set is, after any further step that draws fresh ids, either still in
  the collection exactly as it was, or no longer there (no item has its id).
\<close>

theorem terminal_stays:
  assumes "run parse evs initial = Some s" and "fresh_run parse evs initial"
    and "it \<in> set (items s)" and "terminal it"
    and "fresh e s" and "fire parse e s = Some s'"
  shows "it \<in> set (items s') \<or> id_of it \<notin> id_of ` set (items s')"
proof -
  have inv: "pending_ok s" using pending_ok_run [OF initial_invariants(1) assms(2) assms(1)] .
  with assms(3) have ex: "exactly_one it"
    and np: "\<not> loading it \<longrightarrow> id_of it \<notin> set (map id_of (pipelines s))"
    by (auto simp: pending_ok_def list_all_iff)
  from ex assms(4) have nl: "\<not> loading it" by (auto simp: exactly_one_def terminal_def)
  show ?thesis
  proof (cases e)
    case (ProcessFiles random url files)
    with assms(6) assms(3) show ?thesis by (auto simp: processFiles_eq)
  next
    case (Settle k br ai)
    with assms(6) have k: "k < length (pipelines s)"
      and its: "items s' = settle parse br ai (pipelines s ! k) (items s)"
      by (auto split: if_splits)
    from np nl k have "id_of it \<noteq> id_of (pipelines s ! k)"
      by (metis nth_mem length_map nth_map)
    from settle_keeps [OF assms(3) this] its show ?thesis by simp
  next
    case (RemoveItem i)
    with assms(6) assms(3) show ?thesis by (auto simp: removeItem_def Let_def)
  next
    case (Select x)
    with assms(6) assms(3) show ?thesis by auto
  qed
qed

theorem terminal_stays_witness:
  "run parse_healthy start_ok initial = Some mid_ok \<and>
   fire parse_healthy (Settle 0 browser_ok ai_down) mid_ok = Some final_ok \<and>
   terminal item_a_done \<and> item_a_done \<in> set (items mid_ok) \<and>
   item_a_done \<in> set (items final_ok)"
proof -
  have m: "item_a_done \<in> set (items mid_ok)" by (simp add: mid_ok_def)
  have t: "terminal item_a_done" by (simp add: terminal_def item_a_done_def)
  have fr: "fresh (Settle 0 browser_ok ai_down) mid_ok" by simp
  have i: "id_of item_a_done \<in> id_of ` set (items final_ok)" by (simp add: final_ok_def)
  from terminal_stays [OF run_start_ok fresh_start_ok m t fr fire_mid_ok] i
  have "item_a_done \<in> set (items final_ok)" by blast
  with run_start_ok fire_mid_ok t m show ?thesis by simp
qed

theorem same_id_overwrites_counterexample:
  "run parse_healthy start_clash initial = Some mid_clash \<and>
   item_a_done \<in> set (items mid_clash) \<and> terminal item_a_done \<and>
   fire parse_healthy (Settle 0 browser_ok ai_down) mid_clash = Some final_clash \<and>
   item_a_done \<notin> set (items final_clash) \<and>
   id_of item_a_done \<in> id_of ` set (items final_clash) \<and>
   map error (items final_clash) = [Some unavailable, Some unavailable]"
  by (simp add: run_start_clash fire_mid_clash del: fire.simps)
    (simp add: mid_clash_def final_clash_def terminal_def item_a_done_def item_a_both_def
      item_a_def mkItem_def unavailable_def)

end
